theory Spec2Isabelle
  imports Main
begin

section \<open>Splitting a PDF at an outline layer: a model of \<open>smart_split.py\<close>\<close>

text \<open>
  The script reads the outline (table of contents) of a PDF, selects the outline entries
  at a requested layer as split points, turns them into a plan of page ranges with
  file names, and hands the plan to the page-copying step. This theory embeds the
  functions \<open>sanitize_filename\<close>, \<open>get_destination_page_number\<close>, \<open>get_split_nodes\<close>,
  \<open>generate_split_plan\<close> and the plan check of \<open>main\<close> as HOL functions and proves
  properties of them.
\<close>

subsection \<open>Strings\<close>

text \<open>
  A Python \<open>str\<close> is a sequence of Unicode code points. The 8-bit characters of HOL's
  \<open>string\<close> cannot hold them, so a string is a list of code points here; \<open>str\<close> embeds
  an ASCII literal.
\<close>

type_synonym ustring = "nat list"

definition str :: "string \<Rightarrow> ustring" where
  "str s = map of_char s"

text \<open>
  The character class of line 14, \<^verbatim>\<open>[\\/*?:",<>|]\<close>: backslash, slash, asterisk, question
  mark, colon, double quote, comma, less-than, greater-than and vertical bar.
\<close>

definition invalid_chars :: "nat list" where
  "invalid_chars = [92, 47, 42, 63, 58, 34, 44, 60, 62, 124]"

text \<open>
  \<open>str.isspace\<close> for one code point: the characters that \<open>str.strip()\<close> removes when
  it is called without an argument.
\<close>

definition isspace :: "nat \<Rightarrow> bool" where
  "isspace c \<longleftrightarrow>
     (9 \<le> c \<and> c \<le> 13) \<or> (28 \<le> c \<and> c \<le> 32) \<or> c = 133 \<or> c = 160 \<or> c = 5760
     \<or> (8192 \<le> c \<and> c \<le> 8202) \<or> c = 8232 \<or> c = 8233 \<or> c = 8239 \<or> c = 8287
     \<or> c = 12288"

definition strip :: "ustring \<Rightarrow> ustring" where
  "strip s = rev (dropWhile isspace (rev (dropWhile isspace s)))"

text \<open>
  \<open>re.sub(r'[...]', "_", filename)\<close> replaces every character of the class by an
  underscore (code point 95); \<open>s.replace(" ", "_")\<close> does so for the space (32).
\<close>

definition sanitize_filename :: "ustring \<Rightarrow> ustring" where
  "sanitize_filename filename =
     (let s = map (\<lambda>c. if c \<in> set invalid_chars then 95 else c) filename;
          s = map (\<lambda>c. if c = 32 then 95 else c) s
      in strip s)"

text \<open>\<open>s.split('_')\<close> and \<open>"_".join(words)\<close>, used to shorten a derived prefix.\<close>

fun split_on :: "nat \<Rightarrow> ustring \<Rightarrow> ustring list" where
  "split_on sep [] = [[]]"
| "split_on sep (c # cs) =
     (if c = sep then [] # split_on sep cs
      else (case split_on sep cs of
              [] \<Rightarrow> [[c]]
            | w # ws \<Rightarrow> (c # w) # ws))"

fun join_with :: "ustring \<Rightarrow> ustring list \<Rightarrow> ustring" where
  "join_with sep [] = []"
| "join_with sep [w] = w"
| "join_with sep (w # ws) = w @ sep @ join_with sep ws"

text \<open>
  The format \<open>{n:02d}\<close> of a positive number: its decimal digits, padded with zeros on
  the left to a width of two.
\<close>

fun digits :: "nat \<Rightarrow> ustring" where
  "digits n = (if n < 10 then [48 + n] else digits (n div 10) @ [48 + n mod 10])"

definition format_02d :: "nat \<Rightarrow> ustring" where
  "format_02d n =
     (let ds = digits n
      in if length ds < 2 then replicate (2 - length ds) 48 @ ds else ds)"

subsection \<open>The outline and the reader\<close>

text \<open>
  What \<open>reader.get_destination_page_number(item)\<close> does for an outline entry: it
  returns a page index, returns \<open>None\<close>, or raises.
\<close>

datatype lookup = Page int | NoPage | Raises

text \<open>
  The outline of pypdf is a list whose elements are destinations or lists: the list
  right after a destination holds that destination's children (lines 49 to 51).
\<close>

datatype item = Destination ustring lookup | Children "item list"

record reader =
  outline :: "item list"
  num_pages :: nat

text \<open>Lines 19 to 27: an exception of the reader becomes \<open>None\<close>.\<close>

fun get_destination_page_number :: "lookup \<Rightarrow> int option" where
  "get_destination_page_number (Page n) = Some n"
| "get_destination_page_number NoPage = None"
| "get_destination_page_number Raises = None"

subsection \<open>Selecting the split points\<close>

text \<open>The dictionary \<open>{"title": ..., "page": ..., "level": ...}\<close> of a split point.\<close>

record node =
  title :: ustring
  page :: int
  level :: int

text \<open>
  Lines 99 to 100 and 115 to 116: the node is appended only when its page number is
  not \<open>None\<close>.
\<close>

fun append_node :: "ustring \<Rightarrow> int option \<Rightarrow> int \<Rightarrow> node list" where
  "append_node t None current_depth = []"
| "append_node t (Some page_num) current_depth =
     [\<lparr>title = t, page = page_num, level = current_depth\<rparr>]"

text \<open>
  Lines 67 to 127, the loop \<open>while i < len(outline)\<close>. The list argument is the part of
  \<open>outline\<close> from index \<open>i\<close> on; the result is what the loop appends to \<open>nodes\<close> from
  there. A list met as an item is recursed into one level deeper (lines 76 to 83). A
  destination looks ahead: when the next element is a list, it is the destination's
  children, and the loop steps over both (lines 91 to 93 and 122 to 125). The first
  loop of the function (lines 42 to 65) changes nothing and is left out.
\<close>

fun get_split_nodes :: "item list \<Rightarrow> int \<Rightarrow> int \<Rightarrow> node list" where
  "get_split_nodes [] current_depth target_depth = []"
| "get_split_nodes (Children item # rest) current_depth target_depth =
     get_split_nodes item (current_depth + 1) target_depth
       @ get_split_nodes rest current_depth target_depth"
| "get_split_nodes (Destination t d # Children children # rest) current_depth target_depth =
     (if current_depth = target_depth then
        append_node t (get_destination_page_number d) current_depth
      else if current_depth < target_depth then
        get_split_nodes children (current_depth + 1) target_depth
      else [])
       @ get_split_nodes rest current_depth target_depth"
| "get_split_nodes (Destination t d # rest) current_depth target_depth =
     (if current_depth = target_depth then
        append_node t (get_destination_page_number d) current_depth
      else if current_depth < target_depth then
        append_node t (get_destination_page_number d) current_depth
      else [])
       @ get_split_nodes rest current_depth target_depth"

subsection \<open>Building the plan\<close>

text \<open>
  An entry of the plan: the dictionary with the keys \<open>title\<close>, \<open>start_page\<close>,
  \<open>end_page\<close> and \<open>filename\<close> (the key \<open>title\<close> is the field \<open>entry_title\<close>).
\<close>

record entry =
  entry_title :: ustring
  start_page :: int
  end_page :: int
  filename :: ustring

text \<open>
  What the program prints, one constructor for each message:
  \<^item> \<open>ErrorOpeningPDF\<close>: "Error opening PDF: ..." (line 133);
  \<^item> \<open>NoOutline\<close>: "PDF has no outline." (line 137);
  \<^item> \<open>NoMatchingItems\<close>: "No matching outline items found." (line 159);
  \<^item> \<open>SectionSkipped title start_page\<close>: "Warning: Section '...' starts and ends on
    same page (...). Skipping or merging." (line 182);
  \<^item> \<open>Analyzing layer\<close>: "Analyzing PDF outline at layer ..." (line 230);
  \<^item> \<open>NoValidPlan\<close>: "Could not generate a valid split plan." (line 234);
  \<^item> \<open>FoundSections n\<close>: "Found n sections." (line 238).
\<close>

datatype message =
    ErrorOpeningPDF
  | NoOutline
  | NoMatchingItems
  | SectionSkipped ustring int
  | Analyzing int
  | NoValidPlan
  | FoundSections nat

text \<open>
  Lines 169 to 194, the loop \<open>for i, node in enumerate(raw_nodes)\<close>. The list argument is
  \<open>raw_nodes\<close> from index \<open>i\<close> on, so its second element is \<open>raw_nodes[i+1]\<close>. The result
  is the warnings printed and the entries appended to \<open>plan\<close> from index \<open>i\<close> on.
\<close>

fun plan_loop :: "nat \<Rightarrow> node list \<Rightarrow> int \<Rightarrow> ustring \<Rightarrow> message list \<times> entry list" where
  "plan_loop i [] total_pages prefix = ([], [])"
| "plan_loop i (nd # rest) total_pages prefix =
     (let start_page = page nd;
          title = title nd;
          end_page = (case rest of [] \<Rightarrow> total_pages | next_node # _ \<Rightarrow> page next_node);
          (warnings, plan) = plan_loop (i + 1) rest total_pages prefix
      in if start_page \<ge> end_page then
           (SectionSkipped title start_page # warnings, plan)
         else
           (warnings,
            \<lparr>entry_title = title, start_page = start_page, end_page = end_page,
             filename = prefix @ str ''_'' @ format_02d (i + 1) @ str ''_''
                          @ sanitize_filename title @ str ''.pdf''\<rparr> # plan))"

text \<open>
  Lines 141 to 152. The argument \<open>name_without_ext\<close> is
  \<open>os.path.splitext(os.path.basename(pdf_path))[0]\<close>; a prefix that is \<open>None\<close> or empty
  is derived from it.
\<close>

definition determine_prefix :: "ustring \<Rightarrow> ustring option \<Rightarrow> ustring" where
  "determine_prefix name_without_ext prefix =
     (case prefix of
        Some p \<Rightarrow>
          if p \<noteq> [] then sanitize_filename p
          else
            (let clean_name = sanitize_filename name_without_ext;
                 words = split_on 95 clean_name;
                 words = (if length words > 10 then take 10 words else words)
             in join_with (str ''_'') words)
      | None \<Rightarrow>
          (let clean_name = sanitize_filename name_without_ext;
               words = split_on 95 clean_name;
               words = (if length words > 10 then take 10 words else words)
           in join_with (str ''_'') words))"

text \<open>
  Lines 129 to 196. The first argument is the outcome of \<open>PdfReader(pdf_path)\<close>: \<open>None\<close>
  when opening raises. \<open>raw_nodes.sort(key=...)\<close> is a stable ascending sort, as
  \<open>sort_key\<close> is. The result is the messages printed and the list returned.
\<close>

definition generate_split_plan ::
  "reader option \<Rightarrow> ustring \<Rightarrow> int \<Rightarrow> ustring option \<Rightarrow> message list \<times> entry list" where
  "generate_split_plan opened name_without_ext layer prefix =
     (case opened of
        None \<Rightarrow> ([ErrorOpeningPDF], [])
      | Some reader \<Rightarrow>
          if outline reader = [] then ([NoOutline], [])
          else
            (let prefix = determine_prefix name_without_ext prefix;
                 raw_nodes = get_split_nodes (outline reader) 1 layer
             in if raw_nodes = [] then ([NoMatchingItems], [])
                else
                  (let raw_nodes = sort_key page raw_nodes;
                       total_pages = int (num_pages reader)
                   in plan_loop 0 raw_nodes total_pages prefix)))"

text \<open>
  Lines 229 to 238 of \<open>main\<close>: the plan is generated, and an empty plan ends the run
  with \<open>sys.exit(1)\<close>. Otherwise the plan goes on to be printed, saved and executed.
\<close>

datatype outcome = Exit int | Proceed "entry list"

definition main :: "reader option \<Rightarrow> ustring \<Rightarrow> int \<Rightarrow> ustring option \<Rightarrow> message list \<times> outcome" where
  "main opened name_without_ext layer prefix =
     (let (printed, plan) = generate_split_plan opened name_without_ext layer prefix
      in if plan = [] then (Analyzing layer # printed @ [NoValidPlan], Exit 1)
         else (Analyzing layer # printed @ [FoundSections (length plan)], Proceed plan))"

subsection \<open>Notions used in the statements\<close>

text \<open>The characters that \<open>sanitize_filename\<close> turns into an underscore.\<close>

definition is_replaced :: "nat \<Rightarrow> bool" where
  "is_replaced c \<longleftrightarrow> c \<in> set invalid_chars \<or> c = 32"

text \<open>
  The outline \<open>[A, [A1, A2], B]\<close> with \<open>A\<close> and \<open>A1\<close> on page 0, \<open>A2\<close> on page 5 and
  \<open>B\<close> on page 10.
\<close>

definition scenario_outline :: "item list" where
  "scenario_outline =
     [Destination (str ''A'') (Page 0),
      Children [Destination (str ''A1'') (Page 0), Destination (str ''A2'') (Page 5)],
      Destination (str ''B'') (Page 10)]"

text \<open>
  The outline read as a tree: each destination of the outline with its depth and with
  whether a list of children follows it. The top level has the depth given as argument, a
  nested list is one level deeper.
\<close>

record occurrence =
  its_title :: ustring
  its_destination :: lookup
  its_depth :: int
  has_children :: bool

fun outline_nodes :: "item list \<Rightarrow> int \<Rightarrow> occurrence list" where
  "outline_nodes [] depth = []"
| "outline_nodes (Children item # rest) depth =
     outline_nodes item (depth + 1) @ outline_nodes rest depth"
| "outline_nodes (Destination t d # Children children # rest) depth =
     \<lparr>its_title = t, its_destination = d, its_depth = depth, has_children = True\<rparr>
       # outline_nodes children (depth + 1) @ outline_nodes rest depth"
| "outline_nodes (Destination t d # rest) depth =
     \<lparr>its_title = t, its_destination = d, its_depth = depth, has_children = False\<rparr>
       # outline_nodes rest depth"

text \<open>
  A split point comes from an outline entry when it has the entry's title, the page the
  entry's destination resolves to, and the entry's depth as its level.
\<close>

definition comes_from :: "node \<Rightarrow> occurrence \<Rightarrow> bool" where
  "comes_from n oc \<longleftrightarrow>
     its_title oc = title n
     \<and> get_destination_page_number (its_destination oc) = Some (page n)
     \<and> its_depth oc = level n"

text \<open>
  The end of the section that starts at position \<open>k\<close> of the sorted split points: the
  page of the next split point, or the number of pages after the last one.
\<close>

definition section_end :: "node list \<Rightarrow> int \<Rightarrow> nat \<Rightarrow> int" where
  "section_end ns total_pages k = (if Suc k < length ns then page (ns ! Suc k) else total_pages)"

text \<open>
  The plan entry of a split point with a given number in its file name, in the format
  \<open>{prefix}_{number:02d}_{sanitized_title}.pdf\<close> of line 187.
\<close>

definition numbered_entry :: "ustring \<Rightarrow> nat \<Rightarrow> node \<Rightarrow> int \<Rightarrow> entry" where
  "numbered_entry prefix number nd end =
     \<lparr>entry_title = title nd, start_page = page nd, end_page = end,
      filename = prefix @ str ''_'' @ format_02d number @ str ''_''
                   @ sanitize_filename (title nd) @ str ''.pdf''\<rparr>"

text \<open>Outlines used as concrete inputs below.\<close>

definition broken_parent_outline :: "item list" where
  "broken_parent_outline =
     [Destination (str ''A'') Raises, Children [Destination (str ''A1'') (Page 3)]]"

definition same_page_outline :: "item list" where
  "same_page_outline = [Destination (str ''X'') (Page 5), Destination (str ''Y'') (Page 5)]"

definition repeated_start_outline :: "item list" where
  "repeated_start_outline =
     [Destination (str ''X'') (Page 0), Destination (str ''Y'') (Page 0),
      Destination (str ''Z'') (Page 5)]"


definition unresolved_outline :: "item list" where
  "unresolved_outline = [Destination (str ''A'') Raises, Destination (str ''B'') NoPage]"

section \<open>Properties of \<open>sanitize_filename\<close>\<close>

lemma set_strip: "set (strip s) \<subseteq> set s"
proof -
  have "set (strip s) = set (dropWhile isspace (rev (dropWhile isspace s)))"
    by (simp add: strip_def)
  also have "\<dots> \<subseteq> set (rev (dropWhile isspace s))"
    by (meson set_dropWhileD subsetI)
  also have "\<dots> \<subseteq> set s"
    using set_dropWhileD by fastforce
  finally show ?thesis .
qed

lemma dropWhile_fixed: "dropWhile P xs = xs \<longleftrightarrow> takeWhile P xs = []"
  by (simp add: dropWhile_eq_self_iff takeWhile_eq_Nil_iff)

lemma takeWhile_dropWhile_Nil: "takeWhile P (dropWhile P xs) = []"
  by (induction xs) auto

lemma takeWhile_rev_dropWhile_rev:
  assumes "takeWhile P t = []"
  shows "takeWhile P (rev (dropWhile P (rev t))) = []"
proof -
  define u where "u = rev (dropWhile P (rev t))"
  have t: "t = u @ rev (takeWhile P (rev t))"
    unfolding u_def by (metis rev_append rev_rev_ident takeWhile_dropWhile_id)
  have "takeWhile P u = []"
  proof (cases u)
    case Nil
    then show ?thesis by simp
  next
    case (Cons a v)
    with t obtain w where "t = a # w" by auto
    with assms have "\<not> P a" by (auto split: if_splits)
    with Cons show ?thesis by simp
  qed
  then show ?thesis by (simp only: u_def)
qed

lemma strip_trailing: "takeWhile isspace (rev (strip s)) = []"
  by (simp add: strip_def takeWhile_dropWhile_Nil)

lemma strip_leading: "takeWhile isspace (strip s) = []"
  unfolding strip_def by (rule takeWhile_rev_dropWhile_rev) (rule takeWhile_dropWhile_Nil)

lemma strip_idem: "strip (strip s) = strip s"
proof -
  have 1: "dropWhile isspace (strip s) = strip s"
    using strip_leading by (simp add: dropWhile_fixed)
  have 2: "dropWhile isspace (rev (strip s)) = rev (strip s)"
    using strip_trailing by (simp add: dropWhile_fixed)
  have "strip (strip s) = rev (dropWhile isspace (rev (dropWhile isspace (strip s))))"
    by (simp add: strip_def)
  also have "\<dots> = strip s" by (simp only: 1 2 rev_rev_ident)
  finally show ?thesis .
qed

lemma underscore_kept: "\<not> is_replaced 95"
  by (simp add: is_replaced_def invalid_chars_def)

lemma sanitize_filename_alt:
  "sanitize_filename s = strip (map (\<lambda>c. if is_replaced c then 95 else c) s)"
proof -
  have "(\<lambda>c. if c = 32 then 95 else c) ((if c \<in> set invalid_chars then 95 else c))
      = (if is_replaced c then 95 else c)" for c :: nat
    by (simp add: is_replaced_def)
  then have "map (\<lambda>c. if c = 32 then 95 else c)
               (map (\<lambda>c. if c \<in> set invalid_chars then 95 else c) s)
           = map (\<lambda>c. if is_replaced c then 95 else c) s"
    by (induction s) simp_all
  then show ?thesis by (simp only: sanitize_filename_def Let_def)
qed

lemma sanitize_filename_kept:
  assumes "c \<in> set (sanitize_filename s)"
  shows "\<not> is_replaced c"
proof -
  from assms set_strip have "c \<in> set (map (\<lambda>c. if is_replaced c then 95 else c) s)"
    unfolding sanitize_filename_alt by blast
  then obtain c0 where "c = (if is_replaced c0 then 95 else c0)"
    unfolding set_map by blast
  then show ?thesis using underscore_kept by (cases "is_replaced c0") simp_all
qed

lemma sanitize_idem: "sanitize_filename (sanitize_filename s) = sanitize_filename s"
proof -
  have "map (\<lambda>c. if is_replaced c then 95 else c) (sanitize_filename s) = sanitize_filename s"
    by (rule map_idI) (simp add: sanitize_filename_kept)
  then have "sanitize_filename (sanitize_filename s) = strip (sanitize_filename s)"
    by (simp add: sanitize_filename_alt)
  also have "\<dots> = sanitize_filename s"
    by (simp add: sanitize_filename_alt strip_idem)
  finally show ?thesis .
qed

text \<open>
  Claim C8. For every string, the result of \<open>sanitize_filename\<close> contains none of the
  characters backslash (92), slash (47), asterisk (42), question mark (63), colon (58),
  double quote (34), less-than (60), greater-than (62), vertical bar (124) and no space
  (32); it neither starts nor ends with a whitespace character; and sanitizing it again
  returns it unchanged.
\<close>

theorem sanitize_filename_clean_idempotent:
  "set (sanitize_filename s) \<inter> {92, 47, 42, 63, 58, 34, 60, 62, 124, 32} = {}
   \<and> takeWhile isspace (sanitize_filename s) = []
   \<and> takeWhile isspace (rev (sanitize_filename s)) = []
   \<and> sanitize_filename (sanitize_filename s) = sanitize_filename s"
proof (intro conjI)
  have "c \<notin> set (sanitize_filename s)" if "c \<in> {92, 47, 42, 63, 58, 34, 60, 62, 124, 32}" for c
  proof -
    from that have "is_replaced c" by (auto simp: is_replaced_def invalid_chars_def)
    then show ?thesis using sanitize_filename_kept by blast
  qed
  then show "set (sanitize_filename s) \<inter> {92, 47, 42, 63, 58, 34, 60, 62, 124, 32} = {}"
    by blast
  show "takeWhile isspace (sanitize_filename s) = []"
    by (simp add: sanitize_filename_alt strip_leading)
  show "takeWhile isspace (rev (sanitize_filename s)) = []"
    by (simp add: sanitize_filename_alt strip_trailing)
  show "sanitize_filename (sanitize_filename s) = sanitize_filename s"
    by (rule sanitize_idem)
qed


section \<open>Properties of \<open>get_split_nodes\<close>\<close>

text \<open>
  Every selected split point comes from a destination of the outline whose page
  resolved; its level is the depth of that destination, and it lies at the target depth
  or above it without children.
\<close>

lemma append_node_fields:
  assumes "n \<in> set (append_node t (get_destination_page_number d) depth)"
  shows "title n = t \<and> get_destination_page_number d = Some (page n) \<and> level n = depth"
  using assms by (cases "get_destination_page_number d") auto

lemma get_split_nodes_origin:
  "n \<in> set (get_split_nodes ol cd td) \<Longrightarrow>
     \<exists>oc \<in> set (outline_nodes ol cd).
        comes_from n oc \<and> cd \<le> level n
        \<and> (level n = td \<or> (level n < td \<and> \<not> has_children oc))"
  apply (induction ol cd td rule: get_split_nodes.induct)
  subgoal by simp
  subgoal by fastforce
  subgoal for t d children rest cd td
    by (fastforce simp: comes_from_def split: if_splits dest!: append_node_fields)
  subgoal for t d cd td
    by (fastforce simp: comes_from_def split: if_splits dest!: append_node_fields)
  subgoal for t d t' d' rest cd td
    by (fastforce simp: comes_from_def split: if_splits dest!: append_node_fields)
  done

text \<open>
  Claim C1. For every outline and every target depth \<open>d\<close> (so for every \<open>d \<ge> 1\<close>), each
  split point selected from depth 1 comes from an outline entry that lies at depth \<open>d\<close>,
  or at a smaller depth and has no children; none has a level greater than \<open>d\<close>; and a
  destination at the target depth is taken without its children being visited.
\<close>

theorem selected_nodes_at_target_or_childless:
  assumes "n \<in> set (get_split_nodes ol 1 d)"
  shows "(\<exists>oc \<in> set (outline_nodes ol 1).
            comes_from n oc \<and> (level n = d \<or> (level n < d \<and> \<not> has_children oc)))
         \<and> \<not> level n > d
         \<and> get_split_nodes (Destination t dst # Children children # rest) d d =
             append_node t (get_destination_page_number dst) d @ get_split_nodes rest d d"
proof -
  from get_split_nodes_origin[OF assms] obtain oc where oc: "oc \<in> set (outline_nodes ol 1)"
    "comes_from n oc" "level n = d \<or> (level n < d \<and> \<not> has_children oc)"
    by blast
  then have "\<not> level n > d" by auto
  with oc show ?thesis by auto
qed

theorem selected_nodes_at_target_or_childless_witness:
  "\<lparr>title = str ''B'', page = 10, level = 1\<rparr> \<in> set (get_split_nodes scenario_outline 1 2)
   \<and> (\<exists>oc \<in> set (outline_nodes scenario_outline 1).
         comes_from \<lparr>title = str ''B'', page = 10, level = 1\<rparr> oc
         \<and> level \<lparr>title = str ''B'', page = 10, level = 1\<rparr> < 2 \<and> \<not> has_children oc)
   \<and> \<not> level \<lparr>title = str ''B'', page = 10, level = 1\<rparr> > 2"
proof -
  have h: "\<lparr>title = str ''B'', page = 10, level = 1\<rparr> \<in> set (get_split_nodes scenario_outline 1 2)"
    by (simp add: scenario_outline_def)
  from selected_nodes_at_target_or_childless[OF h] h show ?thesis by auto
qed

section \<open>Properties of the plan loop\<close>

lemma section_end_Suc: "section_end (a # rest) total_pages (Suc k) = section_end rest total_pages k"
  by (simp add: section_end_def)

lemma section_end_0:
  "section_end (a # rest) total_pages 0 = (case rest of [] \<Rightarrow> total_pages | nx # _ \<Rightarrow> page nx)"
  by (cases rest) (simp_all add: section_end_def)

lemma upt_0_Suc: "[0..<Suc n] = 0 # map Suc [0..<n]"
  by (simp only: upt_conv_Cons[OF zero_less_Suc] map_Suc_upt)

lemma plan_loop_Cons:
  "plan_loop i (a # rest) total_pages pfx =
     (if section_end (a # rest) total_pages 0 \<le> page a
      then (SectionSkipped (title a) (page a) # fst (plan_loop (i + 1) rest total_pages pfx),
            snd (plan_loop (i + 1) rest total_pages pfx))
      else (fst (plan_loop (i + 1) rest total_pages pfx),
            numbered_entry pfx (i + 1) a (section_end (a # rest) total_pages 0)
              # snd (plan_loop (i + 1) rest total_pages pfx)))"
  by (simp add: section_end_0 numbered_entry_def Let_def split: prod.split)

lemma plan_loop_indexed:
  "plan_loop i ns total_pages pfx =
     (map (\<lambda>k. SectionSkipped (title (ns ! k)) (page (ns ! k)))
        (filter (\<lambda>k. section_end ns total_pages k \<le> page (ns ! k)) [0..<length ns]),
      map (\<lambda>k. numbered_entry pfx (i + k + 1) (ns ! k) (section_end ns total_pages k))
        (filter (\<lambda>k. page (ns ! k) < section_end ns total_pages k) [0..<length ns]))"
proof (induction ns arbitrary: i)
  case Nil
  show ?case by simp
next
  case (Cons a rest)
  have skipped: "map (\<lambda>k. SectionSkipped (title ((a # rest) ! k)) (page ((a # rest) ! k)))
          (filter (\<lambda>k. section_end (a # rest) total_pages k \<le> page ((a # rest) ! k))
             (map Suc [0..<length rest]))
        = fst (plan_loop (i + 1) rest total_pages pfx)"
    by (simp add: Cons.IH filter_map comp_def section_end_Suc)
  have kept: "map (\<lambda>k. numbered_entry pfx (i + k + 1) ((a # rest) ! k) (section_end (a # rest) total_pages k))
          (filter (\<lambda>k. page ((a # rest) ! k) < section_end (a # rest) total_pages k)
             (map Suc [0..<length rest]))
        = snd (plan_loop (i + 1) rest total_pages pfx)"
    by (simp add: Cons.IH filter_map comp_def section_end_Suc)
  have len: "[0..<length (a # rest)] = 0 # map Suc [0..<length rest]"
    using upt_0_Suc by simp
  show ?case
    unfolding plan_loop_Cons len
    by (simp only: list.map filter.simps skipped kept nth_Cons_0 split: if_splits) auto
qed

declare plan_loop.simps(2) [simp del]

lemma plan_loop_entry:
  assumes "e \<in> set (snd (plan_loop i ns total_pages pfx))"
  shows "\<exists>k < length ns. page (ns ! k) < section_end ns total_pages k
           \<and> e = numbered_entry pfx (i + k + 1) (ns ! k) (section_end ns total_pages k)"
  using assms by (auto simp: plan_loop_indexed)

lemma plan_loop_nondegenerate:
  assumes "e \<in> set (snd (plan_loop i ns total_pages pfx))"
  shows "start_page e < end_page e"
  using plan_loop_entry[OF assms] by (auto simp: numbered_entry_def)



lemma plan_loop_start_ge:
  assumes "sorted (map page ns)"
    and "e \<in> set (snd (plan_loop i ns total_pages pfx))"
  shows "page (hd ns) \<le> start_page e"
proof -
  from plan_loop_entry[OF assms(2)] obtain k where k: "k < length ns"
    and e: "start_page e = page (ns ! k)"
    by (auto simp: numbered_entry_def)
  from k have hd: "hd ns = ns ! 0" and pos: "0 < length ns" by (cases ns, simp_all)+
  from assms(1) k have "map page ns ! 0 \<le> map page ns ! k"
    by (intro sorted_nth_mono) simp_all
  then have "page (ns ! 0) \<le> page (ns ! k)"
    using k pos by (simp only: nth_map)
  then show ?thesis by (simp only: hd e)
qed

lemma plan_loop_sorted:
  assumes "sorted (map page ns)"
  shows "sorted_wrt (\<lambda>a b. end_page a \<le> start_page b) (snd (plan_loop i ns total_pages pfx))"
  using assms
proof (induction ns arbitrary: i)
  case Nil
  show ?case by simp
next
  case (Cons a rest)
  from Cons.prems have rest: "sorted (map page rest)" by simp
  note IH = Cons.IH[OF rest, of "Suc i"]
  show ?case
  proof (cases "section_end (a # rest) total_pages 0 \<le> page a")
    case True
    then show ?thesis using IH by (simp add: plan_loop_Cons)
  next
    case False
    have "section_end (a # rest) total_pages 0 \<le> start_page e"
      if "e \<in> set (snd (plan_loop (Suc i) rest total_pages pfx))" for e
    proof -
      from plan_loop_entry[OF that] have "rest \<noteq> []" by auto
      then have "section_end (a # rest) total_pages 0 = page (hd rest)"
        by (cases rest) (simp_all add: section_end_0)
      with plan_loop_start_ge[OF rest that] show ?thesis by simp
    qed
    with False IH show ?thesis
      by (simp add: plan_loop_Cons numbered_entry_def)
  qed
qed

lemma plan_loop_cover:
  assumes "sorted (map page ns)" and "ns \<noteq> []" and "\<forall>n \<in> set ns. page n \<le> total_pages"
  shows "(\<Union>e \<in> set (snd (plan_loop i ns total_pages pfx)). {start_page e..<end_page e})
           = {page (hd ns)..<total_pages}"
  using assms
proof (induction ns arbitrary: i)
  case Nil
  then show ?case by simp
next
  case (Cons a rest)
  show ?case
  proof (cases rest)
    case Nil
    have se: "section_end (a # rest) total_pages 0 = total_pages"
      using Nil by (simp add: section_end_0)
    have pl: "snd (plan_loop j rest total_pages pfx) = []" for j
      using Nil by simp
    show ?thesis
    proof (cases "total_pages \<le> page a")
      case True
      then show ?thesis by (simp add: plan_loop_Cons se pl)
    next
      case False
      then show ?thesis by (simp add: plan_loop_Cons se pl numbered_entry_def)
    qed
  next
    case (Cons b r)
    with Cons.prems have "sorted (map page rest)" "rest \<noteq> []" "\<forall>n \<in> set rest. page n \<le> total_pages"
      by simp_all
    from Cons.IH[OF this, of "Suc i"]
    have IH: "(\<Union>e \<in> set (snd (plan_loop (Suc i) rest total_pages pfx)). {start_page e..<end_page e})
                = {page b..<total_pages}"
      using Cons by simp
    from Cons Cons.prems have ab: "page a \<le> page b" and b: "page b \<le> total_pages"
      by simp_all
    have se: "section_end (a # rest) total_pages 0 = page b"
      using Cons by (simp add: section_end_0)
    show ?thesis
    proof (cases "page b \<le> page a")
      case True
      with ab have "page a = page b" by simp
      with True IH show ?thesis by (simp add: plan_loop_Cons se)
    next
      case False
      have "{page a..<page b} \<union> {page b..<total_pages} = {page a..<total_pages}"
        using ab b by (rule ivl_disj_un_two)
      with False IH show ?thesis
        by (simp add: plan_loop_Cons se numbered_entry_def)
    qed
  qed
qed

lemma plan_loop_Min:
  assumes "sorted (map page ns)" and "\<forall>n \<in> set ns. page n \<le> total_pages"
    and "snd (plan_loop i ns total_pages pfx) \<noteq> []"
  shows "Min (start_page ` set (snd (plan_loop i ns total_pages pfx))) = page (hd ns)"
proof -
  let ?plan = "snd (plan_loop i ns total_pages pfx)"
  from assms(3) obtain e where e: "e \<in> set ?plan" by (cases ?plan) auto
  from plan_loop_entry[OF e] have ne: "ns \<noteq> []" by auto
  have cover: "(\<Union>e \<in> set ?plan. {start_page e..<end_page e}) = {page (hd ns)..<total_pages}"
    by (rule plan_loop_cover[OF assms(1) ne assms(2)])
  from plan_loop_nondegenerate[OF e] have "start_page e \<in> {start_page e..<end_page e}" by simp
  with e cover have "start_page e \<in> {page (hd ns)..<total_pages}" by blast
  then have "page (hd ns) \<in> {page (hd ns)..<total_pages}" by simp
  then have "page (hd ns) \<in> (\<Union>e \<in> set ?plan. {start_page e..<end_page e})"
    by (simp only: cover)
  then obtain e' where "e' \<in> set ?plan" "page (hd ns) \<in> {start_page e'..<end_page e'}"
    by (elim UN_E)
  then have e': "e' \<in> set ?plan" "start_page e' \<le> page (hd ns)"
    by simp_all
  with plan_loop_start_ge[OF assms(1) e'(1)] have "start_page e' = page (hd ns)" by simp
  with e' have "page (hd ns) \<in> start_page ` set ?plan" by force
  moreover have "page (hd ns) \<le> s" if "s \<in> start_page ` set ?plan" for s
    using that plan_loop_start_ge[OF assms(1)] by auto
  ultimately show ?thesis by (intro Min_eqI) simp_all
qed

lemma generate_split_plan_Some:
  "snd (generate_split_plan (Some r) name layer prefix) =
     snd (plan_loop 0 (sort_key page (get_split_nodes (outline r) 1 layer))
            (int (num_pages r)) (determine_prefix name prefix))"
  by (simp add: generate_split_plan_def Let_def)

lemma generate_split_plan_None: "generate_split_plan None name layer prefix = ([ErrorOpeningPDF], [])"
  by (simp add: generate_split_plan_def)

lemma sorted_hd_Min:
  assumes "sorted (map f xs)" and "xs \<noteq> []"
  shows "f (hd xs) = Min (f ` set xs)"
proof -
  from assms(2) obtain a rest where xs: "xs = a # rest" by (cases xs) auto
  with assms(1) have "\<forall>y \<in> set xs. f a \<le> f y" by auto
  then show ?thesis using xs by (intro Min_eqI[symmetric]) auto
qed

lemma sorted_wrt_disjoint:
  assumes "sorted_wrt (\<lambda>a b. end_page a \<le> start_page b) plan"
    and "i < j" and "j < length plan"
  shows "{start_page (plan ! i)..<end_page (plan ! i)}
           \<inter> {start_page (plan ! j)..<end_page (plan ! j)} = {}"
proof -
  from assms have "end_page (plan ! i) \<le> start_page (plan ! j)"
    by (simp add: sorted_wrt_iff_nth_less)
  then show ?thesis by auto
qed

lemma plan_entry_origin:
  assumes "e \<in> set (snd (generate_split_plan (Some r) name layer prefix))"
  shows "\<exists>n \<in> set (get_split_nodes (outline r) 1 layer).
           entry_title e = title n \<and> start_page e = page n"
proof -
  let ?ns = "sort_key page (get_split_nodes (outline r) 1 layer)"
  from assms have "e \<in> set (snd (plan_loop 0 ?ns (int (num_pages r)) (determine_prefix name prefix)))"
    by (simp only: generate_split_plan_Some)
  from plan_loop_entry[OF this] obtain k where k: "k < length ?ns"
    and e: "entry_title e = title (?ns ! k)" "start_page e = page (?ns ! k)"
    by (auto simp: numbered_entry_def)
  from k have "?ns ! k \<in> set ?ns" by (rule nth_mem)
  then have "?ns ! k \<in> set (get_split_nodes (outline r) 1 layer)" by simp
  with e show ?thesis by blast
qed

lemmas eval_plan =
  generate_split_plan_def determine_prefix_def plan_loop.simps sanitize_filename_def
  invalid_chars_def strip_def isspace_def format_02d_def str_def Let_def

section \<open>The scenarios of the specification\<close>

text \<open>
  Claim C7. On the outline \<open>[A(0), [A1(0), A2(5)], B(10)]\<close> of a document of 15 pages,
  layer 2 selects \<open>A1\<close>, \<open>A2\<close> and the childless \<open>B\<close> (at level 1) and the plan has
  the ranges \<open>[0,5)\<close>, \<open>[5,10)\<close>, \<open>[10,15)\<close>; layer 1 selects \<open>A\<close> and \<open>B\<close> and
  the plan has the ranges \<open>[0,10)\<close>, \<open>[10,15)\<close>.
\<close>

theorem scenario_A_and_B:
  "get_split_nodes scenario_outline 1 2 =
     [\<lparr>title = str ''A1'', page = 0, level = 2\<rparr>,
      \<lparr>title = str ''A2'', page = 5, level = 2\<rparr>,
      \<lparr>title = str ''B'', page = 10, level = 1\<rparr>]
   \<and> map (\<lambda>e. (entry_title e, start_page e, end_page e))
         (snd (generate_split_plan (Some \<lparr>outline = scenario_outline, num_pages = 15\<rparr>)
                 name 2 prefix)) =
       [(str ''A1'', 0, 5), (str ''A2'', 5, 10), (str ''B'', 10, 15)]
   \<and> get_split_nodes scenario_outline 1 1 =
       [\<lparr>title = str ''A'', page = 0, level = 1\<rparr>,
        \<lparr>title = str ''B'', page = 10, level = 1\<rparr>]
   \<and> map (\<lambda>e. (entry_title e, start_page e, end_page e))
         (snd (generate_split_plan (Some \<lparr>outline = scenario_outline, num_pages = 15\<rparr>)
                 name 1 prefix)) =
       [(str ''A'', 0, 10), (str ''B'', 10, 15)]"
  by (simp add: scenario_outline_def generate_split_plan_def plan_loop.simps Let_def)

section \<open>Properties of the plan\<close>

text \<open>
  Claim C2. When no split point lies beyond the number of pages, the entries of the plan
  are non-empty half-open ranges in increasing page order, each ending no later than the
  next one starts, so pairwise disjoint; and the ranges of a non-empty plan together are
  exactly the pages from the smallest start page, which is the smallest page of a split
  point, up to the number of pages.
\<close>

theorem plan_ranges_partition_pages:
  assumes "\<forall>n \<in> set (get_split_nodes (outline r) 1 layer). page n \<le> int (num_pages r)"
    and "plan = snd (generate_split_plan (Some r) name layer prefix)"
  shows "(\<forall>e \<in> set plan. start_page e < end_page e)
         \<and> sorted_wrt (\<lambda>a b. end_page a \<le> start_page b) plan
         \<and> (\<forall>i j. i < j \<and> j < length plan \<longrightarrow>
               {start_page (plan ! i)..<end_page (plan ! i)}
                 \<inter> {start_page (plan ! j)..<end_page (plan ! j)} = {})
         \<and> (plan \<noteq> [] \<longrightarrow>
               (\<Union>e \<in> set plan. {start_page e..<end_page e})
                 = {Min (start_page ` set plan)..<int (num_pages r)}
               \<and> Min (start_page ` set plan)
                   = Min (page ` set (get_split_nodes (outline r) 1 layer)))"
proof -
  let ?raw = "get_split_nodes (outline r) 1 layer"
  let ?ns = "sort_key page ?raw"
  have plan: "plan = snd (plan_loop 0 ?ns (int (num_pages r)) (determine_prefix name prefix))"
    by (simp only: assms(2) generate_split_plan_Some)
  have srt: "sorted (map page ?ns)" by (rule sorted_sort_key)
  have le: "\<forall>n \<in> set ?ns. page n \<le> int (num_pages r)" using assms(1) by simp
  have 1: "\<forall>e \<in> set plan. start_page e < end_page e"
    unfolding plan using plan_loop_nondegenerate by blast
  have 2: "sorted_wrt (\<lambda>a b. end_page a \<le> start_page b) plan"
    unfolding plan by (rule plan_loop_sorted[OF srt])
  have 3: "\<forall>i j. i < j \<and> j < length plan \<longrightarrow>
               {start_page (plan ! i)..<end_page (plan ! i)}
                 \<inter> {start_page (plan ! j)..<end_page (plan ! j)} = {}"
    using sorted_wrt_disjoint[OF 2] by blast
  have 4: "(\<Union>e \<in> set plan. {start_page e..<end_page e})
                 = {Min (start_page ` set plan)..<int (num_pages r)}
           \<and> Min (start_page ` set plan) = Min (page ` set ?raw)" if ne: "plan \<noteq> []"
  proof -
    from ne obtain e where "e \<in> set plan" by (cases plan) auto
    then have "?ns \<noteq> []" unfolding plan using plan_loop_entry by fastforce
    then have raw: "?raw \<noteq> []" by auto
    have m: "Min (start_page ` set plan) = page (hd ?ns)"
      unfolding plan by (rule plan_loop_Min[OF srt le]) (simp add: ne plan[symmetric])
    have c: "(\<Union>e \<in> set plan. {start_page e..<end_page e}) = {page (hd ?ns)..<int (num_pages r)}"
      unfolding plan by (rule plan_loop_cover[OF srt \<open>?ns \<noteq> []\<close> le])
    have "page (hd ?ns) = Min (page ` set ?ns)"
      by (rule sorted_hd_Min[OF srt \<open>?ns \<noteq> []\<close>])
    then have "page (hd ?ns) = Min (page ` set ?raw)" by simp
    with m c show ?thesis by simp
  qed
  from 1 2 3 4 show ?thesis by blast
qed

theorem plan_ranges_partition_pages_witness:
  "list_all (\<lambda>n. page n \<le> int (num_pages \<lparr>outline = scenario_outline, num_pages = 15\<rparr>))
     (get_split_nodes (outline \<lparr>outline = scenario_outline, num_pages = 15\<rparr>) 1 2)
   \<and> (\<Union>e \<in> set (snd (generate_split_plan (Some \<lparr>outline = scenario_outline, num_pages = 15\<rparr>)
                         (str ''doc'') 2 None)).
         {start_page e..<end_page e}) = {0..<15}
   \<and> sorted_wrt (\<lambda>a b. end_page a \<le> start_page b)
        (snd (generate_split_plan (Some \<lparr>outline = scenario_outline, num_pages = 15\<rparr>)
                (str ''doc'') 2 None))"
proof -
  let ?r = "\<lparr>outline = scenario_outline, num_pages = 15\<rparr>"
  let ?plan = "snd (generate_split_plan (Some ?r) (str ''doc'') 2 None)"
  have h: "\<forall>n \<in> set (get_split_nodes (outline ?r) 1 2). page n \<le> int (num_pages ?r)"
    by (simp add: scenario_outline_def)
  have ne: "?plan \<noteq> []" and raw: "Min (page ` set (get_split_nodes (outline ?r) 1 2)) = 0"
    by (simp_all add: scenario_outline_def eval_plan)
  from plan_ranges_partition_pages[OF h refl, of "str ''doc''" None] ne raw
  have "(\<Union>e \<in> set ?plan. {start_page e..<end_page e}) = {0..<15}"
    and "sorted_wrt (\<lambda>a b. end_page a \<le> start_page b) ?plan"
    by simp_all
  with h show ?thesis by (simp add: list_all_iff)
qed

text \<open>
  Claim C3, amended. A destination that does not resolve adds no split point of its own:
  the loop goes on with the rest of the list, every split point comes from a destination
  that resolved, and so does every entry of the plan. Its children are still visited
  when it lies above the target depth; they are not visited when it lies at the target
  depth or deeper.
\<close>

theorem unresolved_node_adds_no_boundary:
  assumes "get_destination_page_number dst = None"
  shows "get_split_nodes (Destination t dst # rest) cd d =
           (case rest of
              Children children # rest' \<Rightarrow>
                (if cd < d then get_split_nodes children (cd + 1) d else [])
                  @ get_split_nodes rest' cd d
            | _ \<Rightarrow> get_split_nodes rest cd d)
         \<and> (\<forall>n \<in> set (get_split_nodes ol 1 d).
               \<exists>oc \<in> set (outline_nodes ol 1). comes_from n oc)
         \<and> (\<forall>e \<in> set (snd (generate_split_plan (Some r) name d prefix)).
               \<exists>oc \<in> set (outline_nodes (outline r) 1).
                 its_title oc = entry_title e
                 \<and> get_destination_page_number (its_destination oc) = Some (start_page e))"
proof (intro conjI ballI)
  show "get_split_nodes (Destination t dst # rest) cd d =
           (case rest of
              Children children # rest' \<Rightarrow>
                (if cd < d then get_split_nodes children (cd + 1) d else [])
                  @ get_split_nodes rest' cd d
            | _ \<Rightarrow> get_split_nodes rest cd d)"
  proof (cases rest)
    case Nil
    with assms show ?thesis by simp
  next
    case (Cons x rest')
    with assms show ?thesis by (cases x) simp_all
  qed
next
  fix n assume "n \<in> set (get_split_nodes ol 1 d)"
  from get_split_nodes_origin[OF this]
  show "\<exists>oc \<in> set (outline_nodes ol 1). comes_from n oc" by blast
next
  fix e assume "e \<in> set (snd (generate_split_plan (Some r) name d prefix))"
  from plan_entry_origin[OF this] obtain n where n: "n \<in> set (get_split_nodes (outline r) 1 d)"
    and e: "entry_title e = title n" "start_page e = page n" by blast
  from get_split_nodes_origin[OF n] obtain oc where "oc \<in> set (outline_nodes (outline r) 1)"
    "comes_from n oc" by blast
  with e show "\<exists>oc \<in> set (outline_nodes (outline r) 1).
                 its_title oc = entry_title e
                 \<and> get_destination_page_number (its_destination oc) = Some (start_page e)"
    by (auto simp: comes_from_def)
qed

theorem unresolved_node_adds_no_boundary_witness:
  "get_destination_page_number Raises = None
   \<and> get_split_nodes (Destination (str ''A'') Raises # [Children [Destination (str ''A1'') (Page 3)]]) 1 2
       = get_split_nodes [Destination (str ''A1'') (Page 3)] 2 2
   \<and> get_split_nodes (Destination (str ''A'') Raises # [Destination (str ''B'') (Page 4)]) 1 1
       = get_split_nodes [Destination (str ''B'') (Page 4)] 1 1"
proof -
  have h: "get_destination_page_number Raises = None" by simp
  from unresolved_node_adds_no_boundary[OF h, of "str ''A''" "[Children [Destination (str ''A1'') (Page 3)]]" 1 2]
       unresolved_node_adds_no_boundary[OF h, of "str ''A''" "[Destination (str ''B'') (Page 4)]" 1 1]
  show ?thesis by simp
qed

text \<open>
  The claim as stated fails: below an unresolved destination \<open>A\<close> at depth 1, the child
  \<open>A1\<close> is selected at layer 2 and gets an entry of the plan.
\<close>

theorem unresolved_parent_children_selected:
  "get_split_nodes broken_parent_outline 1 2 = [\<lparr>title = str ''A1'', page = 3, level = 2\<rparr>]
   \<and> map entry_title
        (snd (generate_split_plan (Some \<lparr>outline = broken_parent_outline, num_pages = 10\<rparr>)
                (str ''doc'') 2 None)) = [str ''A1'']"
  by (simp add: broken_parent_outline_def eval_plan)




text \<open>
  Claim C5, amended. The plan is made of the split points, sorted by page, whose section
  is not empty, and the number in the file name of an entry is the position of its split
  point among all sorted split points, counted from 1: a skipped section uses up its
  number.
\<close>

theorem filenames_numbered_by_boundary_position:
  "snd (generate_split_plan (Some r) name layer prefix) =
     (let nodes = sort_key page (get_split_nodes (outline r) 1 layer);
          total_pages = int (num_pages r)
      in map (\<lambda>k. numbered_entry (determine_prefix name prefix) (k + 1) (nodes ! k)
                     (section_end nodes total_pages k))
           (filter (\<lambda>k. page (nodes ! k) < section_end nodes total_pages k)
              [0..<length nodes]))"
  by (simp add: generate_split_plan_Some plan_loop_indexed Let_def)

theorem filenames_numbered_by_boundary_position_witness:
  "map filename
     (snd (generate_split_plan (Some \<lparr>outline = scenario_outline, num_pages = 15\<rparr>)
             (str ''doc'') 2 None)) =
     [str ''doc_01_A1.pdf'', str ''doc_02_A2.pdf'', str ''doc_03_B.pdf'']"
  unfolding filenames_numbered_by_boundary_position
  by (simp add: scenario_outline_def section_end_def numbered_entry_def determine_prefix_def
      sanitize_filename_def invalid_chars_def strip_def isspace_def format_02d_def str_def Let_def)

text \<open>
  The claim as stated fails: of three split points on the pages 0, 0 and 5 the first is
  skipped, and the two entries of the plan carry the numbers 02 and 03.
\<close>

theorem filename_numbering_has_gap:
  "map filename
     (snd (generate_split_plan (Some \<lparr>outline = repeated_start_outline, num_pages = 10\<rparr>)
             (str ''doc'') 1 None)) = [str ''doc_02_Y.pdf'', str ''doc_03_Z.pdf'']"
  by (simp add: repeated_start_outline_def eval_plan)

text \<open>
  Claim C6, amended. The loop prints one warning for every section with
  \<open>start_page \<ge> end_page\<close> and makes one entry for every other section, in order, so a
  skipped section does not stop it. When two neighbouring split points have the same
  page, the first of them is the one skipped and the loop goes on with the second, which
  is judged by its own section: it is skipped as well when its page is not smaller than
  the end of its section, and gets an entry otherwise. On sorted split points, none
  beyond the number of pages, the entries together cover the pages from the first split
  point up to the number of pages.
\<close>

theorem degenerate_sections_skipped:
  "fst (plan_loop i ns total_pages pfx) =
     map (\<lambda>k. SectionSkipped (title (ns ! k)) (page (ns ! k)))
       (filter (\<lambda>k. section_end ns total_pages k \<le> page (ns ! k)) [0..<length ns])
   \<and> map (\<lambda>e. (entry_title e, start_page e, end_page e)) (snd (plan_loop i ns total_pages pfx)) =
       map (\<lambda>k. (title (ns ! k), page (ns ! k), section_end ns total_pages k))
         (filter (\<lambda>k. page (ns ! k) < section_end ns total_pages k) [0..<length ns])
   \<and> (page a = page b \<longrightarrow>
        plan_loop i (a # b # rest) total_pages pfx =
          (SectionSkipped (title a) (page a) # fst (plan_loop (i + 1) (b # rest) total_pages pfx),
           snd (plan_loop (i + 1) (b # rest) total_pages pfx)))
   \<and> (page a = page b \<longrightarrow>
        plan_loop i (a # b # rest) total_pages pfx =
          (if section_end (b # rest) total_pages 0 \<le> page b
           then (SectionSkipped (title a) (page a) # SectionSkipped (title b) (page b)
                   # fst (plan_loop (i + 2) rest total_pages pfx),
                 snd (plan_loop (i + 2) rest total_pages pfx))
           else (SectionSkipped (title a) (page a) # fst (plan_loop (i + 2) rest total_pages pfx),
                 numbered_entry pfx (i + 2) b (section_end (b # rest) total_pages 0)
                   # snd (plan_loop (i + 2) rest total_pages pfx))))
   \<and> (sorted (map page ns) \<and> ns \<noteq> [] \<and> (\<forall>n \<in> set ns. page n \<le> total_pages) \<longrightarrow>
        (\<Union>e \<in> set (snd (plan_loop i ns total_pages pfx)). {start_page e..<end_page e})
          = {page (hd ns)..<total_pages})"
proof (intro conjI impI)
  show "fst (plan_loop i ns total_pages pfx) =
     map (\<lambda>k. SectionSkipped (title (ns ! k)) (page (ns ! k)))
       (filter (\<lambda>k. section_end ns total_pages k \<le> page (ns ! k)) [0..<length ns])"
    by (simp add: plan_loop_indexed)
  show "map (\<lambda>e. (entry_title e, start_page e, end_page e)) (snd (plan_loop i ns total_pages pfx)) =
       map (\<lambda>k. (title (ns ! k), page (ns ! k), section_end ns total_pages k))
         (filter (\<lambda>k. page (ns ! k) < section_end ns total_pages k) [0..<length ns])"
    by (simp add: plan_loop_indexed numbered_entry_def comp_def)
  show "plan_loop i (a # b # rest) total_pages pfx =
          (SectionSkipped (title a) (page a) # fst (plan_loop (i + 1) (b # rest) total_pages pfx),
           snd (plan_loop (i + 1) (b # rest) total_pages pfx))" if "page a = page b"
    using that by (simp add: plan_loop_Cons[of i a] section_end_0)
  show "plan_loop i (a # b # rest) total_pages pfx =
          (if section_end (b # rest) total_pages 0 \<le> page b
           then (SectionSkipped (title a) (page a) # SectionSkipped (title b) (page b)
                   # fst (plan_loop (i + 2) rest total_pages pfx),
                 snd (plan_loop (i + 2) rest total_pages pfx))
           else (SectionSkipped (title a) (page a) # fst (plan_loop (i + 2) rest total_pages pfx),
                 numbered_entry pfx (i + 2) b (section_end (b # rest) total_pages 0)
                   # snd (plan_loop (i + 2) rest total_pages pfx)))" if "page a = page b"
  proof -
    have first: "plan_loop i (a # b # rest) total_pages pfx =
          (SectionSkipped (title a) (page a) # fst (plan_loop (Suc i) (b # rest) total_pages pfx),
           snd (plan_loop (Suc i) (b # rest) total_pages pfx))"
      using that by (simp add: plan_loop_Cons[of i a] section_end_0)
    have second: "plan_loop (Suc i) (b # rest) total_pages pfx =
          (if section_end (b # rest) total_pages 0 \<le> page b
           then (SectionSkipped (title b) (page b) # fst (plan_loop (i + 2) rest total_pages pfx),
                 snd (plan_loop (i + 2) rest total_pages pfx))
           else (fst (plan_loop (i + 2) rest total_pages pfx),
                 numbered_entry pfx (i + 2) b (section_end (b # rest) total_pages 0)
                   # snd (plan_loop (i + 2) rest total_pages pfx)))"
      by (simp add: plan_loop_Cons[of "Suc i" b])
    show ?thesis by (simp only: first second fst_conv snd_conv if_distrib split: if_splits) simp
  qed
  show "(\<Union>e \<in> set (snd (plan_loop i ns total_pages pfx)). {start_page e..<end_page e})
          = {page (hd ns)..<total_pages}"
    if "sorted (map page ns) \<and> ns \<noteq> [] \<and> (\<forall>n \<in> set ns. page n \<le> total_pages)"
    using that plan_loop_cover by blast
qed

theorem degenerate_sections_skipped_witness:
  "page \<lparr>title = str ''X'', page = 5, level = 1\<rparr> = page \<lparr>title = str ''Y'', page = 5, level = 1\<rparr>
   \<and> plan_loop 0 [\<lparr>title = str ''X'', page = 5, level = 1\<rparr>, \<lparr>title = str ''Y'', page = 5, level = 1\<rparr>]
        10 (str ''doc'')
      = ([SectionSkipped (str ''X'') 5],
         [\<lparr>entry_title = str ''Y'', start_page = 5, end_page = 10,
           filename = str ''doc_02_Y.pdf''\<rparr>])
   \<and> sorted (map page [\<lparr>title = str ''X'', page = 5, level = 1\<rparr>,
                       \<lparr>title = str ''Y'', page = 5, level = 1\<rparr>])
   \<and> list_all (\<lambda>n. page n \<le> 10)
        [\<lparr>title = str ''X'', page = 5, level = 1\<rparr>, \<lparr>title = str ''Y'', page = 5, level = 1\<rparr>]
   \<and> (\<Union>e \<in> set (snd (plan_loop 0 [\<lparr>title = str ''X'', page = 5, level = 1\<rparr>,
                                     \<lparr>title = str ''Y'', page = 5, level = 1\<rparr>] 10 (str ''doc''))).
         {start_page e..<end_page e}) = {5..<10}
   \<and> plan_loop 0 [\<lparr>title = str ''X'', page = 5, level = 1\<rparr>, \<lparr>title = str ''Y'', page = 5, level = 1\<rparr>,
                     \<lparr>title = str ''Z'', page = 5, level = 1\<rparr>] 10 (str ''doc'')
      = ([SectionSkipped (str ''X'') 5, SectionSkipped (str ''Y'') 5],
         [\<lparr>entry_title = str ''Z'', start_page = 5, end_page = 10,
           filename = str ''doc_03_Z.pdf''\<rparr>])"
proof -
  let ?x = "\<lparr>title = str ''X'', page = 5, level = 1\<rparr>"
  let ?y = "\<lparr>title = str ''Y'', page = 5, level = 1\<rparr>"
  let ?z = "\<lparr>title = str ''Z'', page = 5, level = 1\<rparr>"
  note three = degenerate_sections_skipped[of 0 "[?x, ?y, ?z]" 10 "str ''doc''" ?x ?y "[?z]"]
  note skipped = degenerate_sections_skipped[of 0 "[?x, ?y]" 10 "str ''doc''" ?x ?y "[]"]
  have same: "page ?x = page ?y" by simp
  have rest: "plan_loop (0 + 1) [?y] 10 (str ''doc'')
      = ([], [\<lparr>entry_title = str ''Y'', start_page = 5, end_page = 10,
               filename = str ''doc_02_Y.pdf''\<rparr>])"
    by (simp add: eval_plan)
  from skipped same have "plan_loop 0 [?x, ?y] 10 (str ''doc'')
      = (SectionSkipped (title ?x) (page ?x) # fst (plan_loop (0 + 1) [?y] 10 (str ''doc'')),
         snd (plan_loop (0 + 1) [?y] 10 (str ''doc'')))"
    by blast
  then have loop: "plan_loop 0 [?x, ?y] 10 (str ''doc'')
      = ([SectionSkipped (str ''X'') 5],
         [\<lparr>entry_title = str ''Y'', start_page = 5, end_page = 10,
           filename = str ''doc_02_Y.pdf''\<rparr>])"
    by (simp only: rest fst_conv snd_conv node.simps)
  have hyp: "sorted (map page [?x, ?y]) \<and> [?x, ?y] \<noteq> [] \<and> (\<forall>n \<in> set [?x, ?y]. page n \<le> 10)"
    by simp
  with skipped have "(\<Union>e \<in> set (snd (plan_loop 0 [?x, ?y] 10 (str ''doc''))).
         {start_page e..<end_page e}) = {page (hd [?x, ?y])..<10}"
    by blast
  then have cover: "(\<Union>e \<in> set (snd (plan_loop 0 [?x, ?y] 10 (str ''doc''))).
         {start_page e..<end_page e}) = {5..<10}"
    by simp
  from three same have "plan_loop 0 [?x, ?y, ?z] 10 (str ''doc'') =
          (if section_end [?y, ?z] 10 0 \<le> page ?y
           then (SectionSkipped (title ?x) (page ?x) # SectionSkipped (title ?y) (page ?y)
                   # fst (plan_loop (0 + 2) [?z] 10 (str ''doc'')),
                 snd (plan_loop (0 + 2) [?z] 10 (str ''doc'')))
           else (SectionSkipped (title ?x) (page ?x) # fst (plan_loop (0 + 2) [?z] 10 (str ''doc'')),
                 numbered_entry (str ''doc'') (0 + 2) ?y (section_end [?y, ?z] 10 0)
                   # snd (plan_loop (0 + 2) [?z] 10 (str ''doc''))))"
    by blast
  then have both: "plan_loop 0 [?x, ?y, ?z] 10 (str ''doc'')
      = ([SectionSkipped (str ''X'') 5, SectionSkipped (str ''Y'') 5],
         [\<lparr>entry_title = str ''Z'', start_page = 5, end_page = 10,
           filename = str ''doc_03_Z.pdf''\<rparr>])"
    by (simp add: section_end_def eval_plan)
  from same loop cover both show ?thesis by simp
qed

text \<open>
  The claim as stated fails: of two split points \<open>X\<close> and \<open>Y\<close> on page 5 it is the first,
  \<open>X\<close>, that is skipped with a warning; the second, \<open>Y\<close>, gets the pages from 5 to 10.
\<close>

theorem first_of_same_page_skipped:
  "generate_split_plan (Some \<lparr>outline = same_page_outline, num_pages = 10\<rparr>) (str ''doc'') 1 None =
    ([SectionSkipped (str ''X'') 5],
     [\<lparr>entry_title = str ''Y'', start_page = 5, end_page = 10, filename = str ''doc_02_Y.pdf''\<rparr>])"
  by (simp add: same_page_outline_def eval_plan)

section \<open>Empty selections and empty plans\<close>

text \<open>
  Claim C9. An empty outline gives no split points, and so does an outline none of whose
  destinations resolves. An empty outline is reported as such, an empty selection is
  reported as such, and whenever the plan is empty the program reports that no valid
  plan could be generated and exits with code 1; it never goes on with an empty plan.
\<close>

theorem empty_selection_reported_exit_nonzero:
  "get_split_nodes [] cd d = []
   \<and> (list_all (\<lambda>oc. get_destination_page_number (its_destination oc) = None)
         (outline_nodes ol cd) \<longrightarrow> get_split_nodes ol cd d = [])
   \<and> generate_split_plan (Some \<lparr>outline = [], num_pages = n\<rparr>) name layer prefix = ([NoOutline], [])
   \<and> (outline r \<noteq> [] \<and> get_split_nodes (outline r) 1 layer = [] \<longrightarrow>
        generate_split_plan (Some r) name layer prefix = ([NoMatchingItems], []))
   \<and> (snd (generate_split_plan opened name layer prefix) = [] \<longrightarrow>
        main opened name layer prefix =
          (Analyzing layer # fst (generate_split_plan opened name layer prefix) @ [NoValidPlan],
           Exit 1))
   \<and> snd (main opened name layer prefix) \<noteq> Proceed []"
proof (intro conjI impI)
  show "get_split_nodes [] cd d = []" by simp
  show "get_split_nodes ol cd d = []"
    if un: "list_all (\<lambda>oc. get_destination_page_number (its_destination oc) = None)
              (outline_nodes ol cd)"
  proof (rule ccontr)
    assume "get_split_nodes ol cd d \<noteq> []"
    then obtain n where "n \<in> set (get_split_nodes ol cd d)"
      by (cases "get_split_nodes ol cd d") auto
    from get_split_nodes_origin[OF this] obtain oc where "oc \<in> set (outline_nodes ol cd)"
      "comes_from n oc" by blast
    with un show False by (auto simp: list_all_iff comes_from_def)
  qed
  show "generate_split_plan (Some \<lparr>outline = [], num_pages = n\<rparr>) name layer prefix
          = ([NoOutline], [])"
    by (simp add: generate_split_plan_def)
  show "generate_split_plan (Some r) name layer prefix = ([NoMatchingItems], [])"
    if "outline r \<noteq> [] \<and> get_split_nodes (outline r) 1 layer = []"
    using that by (simp add: generate_split_plan_def Let_def)
  show "main opened name layer prefix =
          (Analyzing layer # fst (generate_split_plan opened name layer prefix) @ [NoValidPlan],
           Exit 1)"
    if "snd (generate_split_plan opened name layer prefix) = []"
    using that by (simp add: main_def case_prod_unfold)
  show "snd (main opened name layer prefix) \<noteq> Proceed []"
    by (simp add: main_def case_prod_unfold Let_def)
qed

theorem empty_selection_reported_exit_nonzero_witness:
  "list_all (\<lambda>oc. get_destination_page_number (its_destination oc) = None)
     (outline_nodes unresolved_outline 1)
   \<and> get_split_nodes unresolved_outline 1 1 = []
   \<and> outline \<lparr>outline = unresolved_outline, num_pages = 3\<rparr> \<noteq> []
   \<and> generate_split_plan (Some \<lparr>outline = unresolved_outline, num_pages = 3\<rparr>) (str ''doc'') 1 None
       = ([NoMatchingItems], [])
   \<and> main (Some \<lparr>outline = unresolved_outline, num_pages = 3\<rparr>) (str ''doc'') 1 None
       = ([Analyzing 1, NoMatchingItems, NoValidPlan], Exit 1)"
proof -
  let ?r = "\<lparr>outline = unresolved_outline, num_pages = 3\<rparr>"
  note reported = empty_selection_reported_exit_nonzero[of 1 1 unresolved_outline 3 "str ''doc''" 1 None ?r "Some ?r"]
  have un: "list_all (\<lambda>oc. get_destination_page_number (its_destination oc) = None)
     (outline_nodes unresolved_outline 1)"
    by (simp add: unresolved_outline_def)
  with reported have sel: "get_split_nodes unresolved_outline 1 1 = []" by blast
  have ne: "outline ?r \<noteq> []" by (simp add: unresolved_outline_def)
  with reported sel have gen: "generate_split_plan (Some ?r) (str ''doc'') 1 None = ([NoMatchingItems], [])"
    by simp
  with reported have "main (Some ?r) (str ''doc'') 1 None
       = ([Analyzing 1, NoMatchingItems, NoValidPlan], Exit 1)"
    by simp
  with un sel ne gen show ?thesis by blast
qed

end
